theory Spec2Isabelle
  imports Main "HOL-Library.Word"
begin

section \<open>The shoutcast stream: data model\<close>

text \<open>
  The package has one source file, \<^verbatim>\<open>stream.go\<close>, with the type \<^verbatim>\<open>Stream\<close> and
  the operations \<^verbatim>\<open>Open\<close>, \<^verbatim>\<open>Read\<close> and \<^verbatim>\<open>Close\<close>.

  Go's \<^verbatim>\<open>int\<close> is modelled as \<^typ>\<open>int\<close>, without the wrap-around of the 64-bit
  machine integer. The model and the code agree on a call of \<^verbatim>\<open>Read\<close> as long as the
  fields and the count are in the range of \<^verbatim>\<open>int\<close> and the sum \<^verbatim>\<open>s.pos + n\<close> does not
  leave it; where the sum wraps, the code's comparison \<^verbatim>\<open>s.pos+n <= s.metaint\<close> is
  decided on the wrapped value. The properties that depend on it carry that condition
  (\<open>no_wrap\<close> below) as a hypothesis. A \<^verbatim>\<open>byte\<close> is an 8-bit word. A run-time panic (slice bounds out of range, nil dereference) is the
  outcome \<open>Panic\<close>; a call that returns is \<open>Return\<close> of what it returns together with the
  state it leaves behind.
\<close>

type_synonym byte = "8 word"

datatype 'a outcome = Panic | Return 'a

text \<open>
  The struct \<^verbatim>\<open>Stream\<close>. The callback field holds a function value or nil: \<open>'c\<close> is
  the type of callback values, \<open>None\<close> is nil. \<open>'m\<close> is the type \<^verbatim>\<open>Metadata\<close>, whose
  pointer may be nil as well, and \<open>'r\<close> is the state of the underlying
  \<^verbatim>\<open>io.ReadCloser\<close>.
\<close>

record ('c, 'm, 'r) Stream =
  Name :: string
  Genre :: string
  Description :: string
  URL :: string
  Bitrate :: int
  MetadataCallbackFunc :: "'c option"
  metaint :: int
  metadata :: "'m option"
  pos :: int
  rc :: 'r

section \<open>Slices\<close>

text \<open>
  A Go slice sees \<^verbatim>\<open>len\<close> cells of its backing array and may be re-sliced up to its
  capacity. A slice is modelled by the pair of the cells below its length and the
  spare cells between its length and its capacity.

  \<open>slice_lo_hi p lo hi\<close> is \<^verbatim>\<open>p[lo:hi]\<close>, which panics unless
  \<^verbatim>\<open>0 <= lo <= hi <= cap(p)\<close>; \<open>slice_lo p lo\<close> is \<^verbatim>\<open>p[lo:]\<close>, whose upper
  index is \<^verbatim>\<open>len(p)\<close>. \<open>None\<close> is the panic.
\<close>

type_synonym slice = "byte list \<times> byte list"

definition slice_lo_hi :: "slice \<Rightarrow> int \<Rightarrow> int \<Rightarrow> slice option" where
  "slice_lo_hi p lo hi =
     (let cells = fst p @ snd p in
      if 0 \<le> lo \<and> lo \<le> hi \<and> hi \<le> int (length cells)
      then Some (take (nat (hi - lo)) (drop (nat lo) cells), drop (nat hi) cells)
      else None)"

definition slice_lo :: "slice \<Rightarrow> int \<Rightarrow> slice option" where
  "slice_lo p lo = slice_lo_hi p lo (int (length (fst p)))"

text \<open>
  The builtin \<^verbatim>\<open>copy(dst, src)\<close> copies \<^verbatim>\<open>min(len(dst), len(src))\<close> elements and
  handles overlapping slices as if the source were read first; the result is the new
  content of \<open>dst\<close>.
\<close>

definition copy :: "byte list \<Rightarrow> byte list \<Rightarrow> byte list" where
  "copy dst src = take (length dst) src @ drop (length src) dst"

section \<open>Read\<close>

text \<open>
  \<open>Read\<close> takes the collaborators it calls as parameters, since they are not part of
  \<^verbatim>\<open>stream.go\<close>: \<open>NewMetadata\<close> and \<open>Equals\<close> of the type \<^verbatim>\<open>Metadata\<close>, and the
  \<^verbatim>\<open>Read\<close> method of the underlying source, \<open>rc_Read\<close>, which maps the source's state
  and the buffer it is given to the count, the error (\<open>None\<close> is nil), the content of
  the buffer after the call and the source's new state.

  The model takes the count and the buffer as the source returns them: it does not
  assume that the count is within the buffer, as \<^verbatim>\<open>io.Reader\<close> asks of a source.

  The invocations of the callback are recorded in a trace \<open>calls\<close>, a list of pairs of
  the callback value and the snapshot it was called with, the latest last. What the
  callback does with the snapshot is outside the model; it is taken to leave the
  stream and the buffer alone.

  The result is the count and the error returned, the content of the caller's buffer,
  the stream and the trace. A call that panics has no result: when the block lies
  within the capacity of the buffer and not within its length, the snapshot is
  replaced and the callback invoked before the last slice expression panics, and the
  model keeps nothing of it.
\<close>

type_synonym ('c, 'm, 'r, 'e) read_result =
  "int \<times> 'e option \<times> byte list \<times> ('c, 'm, 'r) Stream \<times> ('c \<times> 'm) list"

definition Read ::
  "(byte list \<Rightarrow> 'm) \<Rightarrow> ('m \<Rightarrow> 'm option \<Rightarrow> bool) \<Rightarrow>
   ('r \<Rightarrow> byte list \<Rightarrow> int \<times> 'e option \<times> byte list \<times> 'r) \<Rightarrow>
   ('c, 'm, 'r) Stream \<Rightarrow> ('c \<times> 'm) list \<Rightarrow> slice \<Rightarrow> ('c, 'm, 'r, 'e) read_result outcome"
where
  "Read NewMetadata Equals rc_Read s0 calls0 p0 =
     (case rc_Read (rc s0) (fst p0) of (n, err, buf, r) \<Rightarrow>
      let p = (buf, snd p0); s = s0\<lparr>rc := r\<rparr> in
      if pos s + n \<le> metaint s
      then Return (n, err, buf, s\<lparr>pos := pos s + n\<rparr>, calls0)
      else
        let metadataStart = metaint s - pos s in
        (case slice_lo_hi p metadataStart (metadataStart + 1) of
           None \<Rightarrow> Panic
         | Some lb \<Rightarrow>
           let metadataLength = uint (fst lb ! 0) * 16 in
           (case (if metadataLength > 0
                  then (case slice_lo_hi p (metadataStart + 1) (metadataStart + 1 + metadataLength) of
                          None \<Rightarrow> None
                        | Some blk \<Rightarrow>
                            let m = NewMetadata (fst blk) in
                            if \<not> Equals m (metadata s)
                            then Some (s\<lparr>metadata := Some m\<rparr>,
                                       (case MetadataCallbackFunc s of
                                          None \<Rightarrow> calls0
                                        | Some f \<Rightarrow> calls0 @ [(f, m)]))
                            else Some (s, calls0))
                  else Some (s, calls0)) of
              None \<Rightarrow> Panic
            | Some (s1, calls1) \<Rightarrow>
              let s2 = s1\<lparr>pos := ((pos s1 + n) - metaint s1) - metadataLength - 1\<rparr> in
              (case slice_lo p metadataStart of
                 None \<Rightarrow> Panic
               | Some dst \<Rightarrow>
                 (case slice_lo p (metadataStart + 1 + metadataLength) of
                    None \<Rightarrow> Panic
                  | Some src \<Rightarrow>
                    Return (n - 1 - metadataLength, err,
                            take (nat metadataStart) buf @ copy (fst dst) (fst src),
                            s2, calls1))))))"

text \<open>\<^verbatim>\<open>Close\<close> closes the underlying source and returns its error.\<close>

definition Close ::
  "('r \<Rightarrow> 'e option \<times> 'r) \<Rightarrow> ('c, 'm, 'r) Stream \<Rightarrow> 'e option \<times> ('c, 'm, 'r) Stream"
where
  "Close rc_Close s = (case rc_Close (rc s) of (err, r) \<Rightarrow> (err, s\<lparr>rc := r\<rparr>))"

section \<open>Open\<close>

subsection \<open>The library functions Open calls\<close>

text \<open>
  \<^verbatim>\<open>strconv.Atoi\<close> of the Go library, for the 64-bit \<^verbatim>\<open>int\<close>: an optional sign and
  one or more decimal digits, the value within the range of \<^verbatim>\<open>int\<close>. \<open>None\<close> is the
  error it returns otherwise (the error's text is not modelled).
\<close>

definition isDigit :: "char \<Rightarrow> bool" where
  "isDigit c = (let k = (of_char c :: nat) in 48 \<le> k \<and> k \<le> 57)"

fun parse_digits :: "int \<Rightarrow> string \<Rightarrow> int option" where
  "parse_digits acc [] = Some acc"
| "parse_digits acc (c # cs) =
     (if isDigit c then parse_digits (acc * 10 + (of_char c - 48)) cs else None)"

definition Atoi :: "string \<Rightarrow> int option" where
  "Atoi s =
     (let (neg, ds) = (case s of
                         [] \<Rightarrow> (False, [])
                       | c # cs \<Rightarrow> if c = CHR ''-'' then (True, cs)
                                  else if c = CHR ''+'' then (False, cs)
                                  else (False, s)) in
      if ds = [] then None
      else (case parse_digits 0 ds of
              None \<Rightarrow> None
            | Some v \<Rightarrow>
                let i = (if neg then - v else v) in
                if - (2 ^ 63) \<le> i \<and> i < 2 ^ 63 then Some i else None))"

text \<open>
  \<^verbatim>\<open>http.Header\<close> maps a canonical key to the list of its values; it is modelled by
  the list of its entries. \<^verbatim>\<open>textproto.CanonicalMIMEHeaderKey\<close> leaves a key with a
  byte that no header name may hold as it is, and otherwise puts the first letter and
  every letter after a hyphen in upper case and the others in lower case.
\<close>

type_synonym Header = "(string \<times> string list) list"

definition isLower :: "char \<Rightarrow> bool" where
  "isLower c = (let k = (of_char c :: nat) in 97 \<le> k \<and> k \<le> 122)"

definition isUpper :: "char \<Rightarrow> bool" where
  "isUpper c = (let k = (of_char c :: nat) in 65 \<le> k \<and> k \<le> 90)"

definition validHeaderFieldByte :: "char \<Rightarrow> bool" where
  "validHeaderFieldByte c =
     (isLower c \<or> isUpper c \<or> isDigit c \<or>
      (of_char c :: nat) \<in> {33, 35, 36, 37, 38, 39, 42, 43, 45, 46, 94, 95, 96, 124, 126})"

fun canonical :: "bool \<Rightarrow> string \<Rightarrow> string" where
  "canonical upper [] = []"
| "canonical upper (c # cs) =
     (if upper \<and> isLower c then char_of (of_char c - (32 :: nat))
      else if \<not> upper \<and> isUpper c then char_of (of_char c + (32 :: nat))
      else c) # canonical (c = CHR ''-'') cs"

definition CanonicalMIMEHeaderKey :: "string \<Rightarrow> string" where
  "CanonicalMIMEHeaderKey s = (if list_all validHeaderFieldByte s then canonical True s else s)"

text \<open>\<^verbatim>\<open>Header.Get\<close>: the first value of the key, the empty string when it has none.\<close>

definition Header_Get :: "Header \<Rightarrow> string \<Rightarrow> string" where
  "Header_Get h key =
     (case map_of h (CanonicalMIMEHeaderKey key) of
        None \<Rightarrow> []
      | Some [] \<Rightarrow> []
      | Some (v # vs) \<Rightarrow> v)"

text \<open>\<^verbatim>\<open>Header.Add\<close>: appends the value to the values of the key.\<close>

definition Header_Add :: "Header \<Rightarrow> string \<Rightarrow> string \<Rightarrow> Header" where
  "Header_Add h key val =
     (let k = CanonicalMIMEHeaderKey key in
      case map_of h k of
        None \<Rightarrow> h @ [(k, [val])]
      | Some _ \<Rightarrow> map (\<lambda>(k', vs). if k' = k then (k', vs @ [val]) else (k', vs)) h)"

text \<open>
  The request and the response of \<^verbatim>\<open>net/http\<close>, with the fields \<^verbatim>\<open>Open\<close> uses.
  \<open>'r\<close> is the response body, the underlying source of the stream.
\<close>

record request =
  req_Method :: string
  req_URL :: string
  req_Header :: Header

record 'r response =
  resp_Header :: Header
  Body :: 'r

subsection \<open>Open\<close>

text \<open>
  The errors \<^verbatim>\<open>Open\<close> returns: the error of \<^verbatim>\<open>client.Do\<close> as it is, or one of the two
  errors it makes with \<^verbatim>\<open>fmt.Errorf\<close>.
\<close>

datatype 'e open_error = DoError 'e | CannotParseBitrate | CannotParseMetaint

text \<open>
  \<open>Open\<close> takes \<^verbatim>\<open>http.NewRequest\<close> and the \<^verbatim>\<open>Do\<close> of the client it builds (with its
  dial timeout) as parameters; each returns its error (\<open>Inl\<close>, the other result being
  nil) or its result. The error of \<open>NewRequest\<close> is overwritten before it is read, and
  the request, nil in that case, is dereferenced by \<^verbatim>\<open>req.Header.Add\<close>. The loop that
  logs the headers reads \<^verbatim>\<open>v[0]\<close> of every entry. Logging itself is not modelled.
\<close>

definition Open ::
  "(string \<Rightarrow> string \<Rightarrow> 'e + request) \<Rightarrow> (request \<Rightarrow> 'e + 'r response) \<Rightarrow> string \<Rightarrow>
   ('e open_error + ('c, 'm, 'r) Stream) outcome"
where
  "Open NewRequest Do url =
     (case NewRequest ''GET'' url of
        Inl err \<Rightarrow> Panic
      | Inr req0 \<Rightarrow>
        let req1 = req0\<lparr>req_Header := Header_Add (req_Header req0) ''accept'' ''*/*''\<rparr>;
            req2 = req1\<lparr>req_Header := Header_Add (req_Header req1) ''user-agent''
                     ''iTunes/12.9.2 (Macintosh; OS X 10.14.3) AppleWebKit/606.4.5''\<rparr>;
            req3 = req2\<lparr>req_Header := Header_Add (req_Header req2) ''icy-metadata'' ''1''\<rparr>
        in
        (case Do req3 of
           Inl err \<Rightarrow> Return (Inl (DoError err))
         | Inr resp \<Rightarrow>
           if list_ex (\<lambda>(k, v). v = []) (resp_Header resp) then Panic
           else
             (case Atoi (Header_Get (resp_Header resp) ''icy-br'') of
                None \<Rightarrow> Return (Inl CannotParseBitrate)
              | Some bitrate \<Rightarrow>
                (case Atoi (Header_Get (resp_Header resp) ''icy-metaint'') of
                   None \<Rightarrow> Return (Inl CannotParseMetaint)
                 | Some mi \<Rightarrow>
                   Return (Inr \<lparr>Name = Header_Get (resp_Header resp) ''icy-name'',
                                Genre = Header_Get (resp_Header resp) ''icy-genre'',
                                Description = Header_Get (resp_Header resp) ''icy-description'',
                                URL = Header_Get (resp_Header resp) ''icy-url'',
                                Bitrate = bitrate,
                                MetadataCallbackFunc = None,
                                metaint = mi,
                                metadata = None,
                                pos = 0,
                                rc = Body resp\<rparr>)))))"

section \<open>Vocabulary of the properties\<close>

text \<open>
  \<open>int_range x\<close>: \<open>x\<close> is a value of Go's 64-bit \<^verbatim>\<open>int\<close>. \<open>no_wrap s n buf\<close>: the position
  and the interval of the stream \<open>s\<close> and the count \<open>n\<close> are values of \<^verbatim>\<open>int\<close>, the sum
  \<^verbatim>\<open>s.pos + n\<close> that \<^verbatim>\<open>Read\<close> forms is one too, so that it does not wrap, and the
  length of the buffer is an \<^verbatim>\<open>int\<close>, as the length of every slice is.
\<close>

definition int_range :: "int \<Rightarrow> bool" where
  "int_range x = (- (2 ^ 63) \<le> x \<and> x < 2 ^ 63)"

definition no_wrap :: "('c, 'm, 'r) Stream \<Rightarrow> int \<Rightarrow> byte list \<Rightarrow> bool" where
  "no_wrap s n buf =
     (int_range (pos s) \<and> int_range (metaint s) \<and> int_range n \<and> int_range (pos s + n) \<and>
      int_range (int (length buf)))"

text \<open>
  \<open>decodes NewMetadata rc_Read s p m\<close>: the call of \<^verbatim>\<open>Read\<close> on the stream \<open>s\<close> with the
  buffer \<open>p\<close> meets a metadata boundary in the bytes the source delivers, without
  wrap-around, the block declared there is not empty and lies within the buffer, and it
  decodes to \<open>m\<close>.
\<close>

definition decodes ::
  "(byte list \<Rightarrow> 'm) \<Rightarrow> ('r \<Rightarrow> byte list \<Rightarrow> int \<times> 'e option \<times> byte list \<times> 'r) \<Rightarrow>
   ('c, 'm, 'r) Stream \<Rightarrow> slice \<Rightarrow> 'm \<Rightarrow> bool"
where
  "decodes NewMetadata rc_Read s p m =
     (case rc_Read (rc s) (fst p) of (n, err, buf, r) \<Rightarrow>
        let metadataStart = metaint s - pos s;
            blockLen = uint (buf ! nat metadataStart) * 16
        in no_wrap s n buf \<and>
           metaint s < pos s + n \<and> 0 \<le> metadataStart \<and> 0 < blockLen \<and>
           metadataStart + 1 + blockLen \<le> int (length buf) \<and>
           m = NewMetadata (take (nat blockLen) (drop (nat (metadataStart + 1)) buf)))"

text \<open>The invocations that calling the callback \<open>cb\<close> (nil or set) with \<open>m\<close> adds to the trace.\<close>

definition invocation :: "'c option \<Rightarrow> 'm \<Rightarrow> ('c \<times> 'm) list" where
  "invocation cb m = (case cb of None \<Rightarrow> [] | Some f \<Rightarrow> [(f, m)])"

text \<open>
  A header is absent when the response has no entry under its canonical key. A string
  is a decimal numeral when it is an optional sign followed by one or more digits.
\<close>

definition absent :: "Header \<Rightarrow> string \<Rightarrow> bool" where
  "absent h key = (map_of h (CanonicalMIMEHeaderKey key) = None)"

text \<open>The request \<^verbatim>\<open>Open\<close> sends: the request made for the URL, with the three headers added.\<close>

definition icy_request :: "request \<Rightarrow> request" where
  "icy_request req0 =
     req0\<lparr>req_Header :=
       Header_Add
         (Header_Add (Header_Add (req_Header req0) ''accept'' ''*/*'') ''user-agent''
            ''iTunes/12.9.2 (Macintosh; OS X 10.14.3) AppleWebKit/606.4.5'')
         ''icy-metadata'' ''1''\<rparr>"

definition numeric :: "string \<Rightarrow> bool" where
  "numeric s =
     (let ds = (case s of [] \<Rightarrow> [] | c # cs \<Rightarrow> if c = CHR ''-'' \<or> c = CHR ''+'' then cs else s)
      in ds \<noteq> [] \<and> list_all isDigit ds)"

section \<open>Collaborators of the examples\<close>

text \<open>
  The examples run the operations on concrete collaborators. The source delivers the
  chunks of a script, one per call, each with the error scripted for it, and reports
  the end of the stream when the script is over.
\<close>

fun scripted_Read ::
  "(byte list \<times> string option) list \<Rightarrow> byte list \<Rightarrow>
   int \<times> string option \<times> byte list \<times> (byte list \<times> string option) list"
where
  "scripted_Read [] p = (0, Some ''EOF'', p, [])"
| "scripted_Read ((d, e) # rest) p =
     (let d' = take (length p) d in (int (length d'), e, d' @ drop (length d') p, rest))"

text \<open>
  Modelled from the spec: the type \<^verbatim>\<open>Metadata\<close>, with \<^verbatim>\<open>NewMetadata\<close> and \<^verbatim>\<open>Equals\<close>, is
  defined outside \<^verbatim>\<open>stream.go\<close>. A snapshot is the text of the block without its
  padding of null bytes, and two snapshots are equal when their decoded contents are;
  the absent snapshot is equal to none.
\<close>

definition text_NewMetadata :: "byte list \<Rightarrow> byte list" where
  "text_NewMetadata b = takeWhile (\<lambda>x. x \<noteq> 0) b"

definition text_Equals :: "byte list \<Rightarrow> byte list option \<Rightarrow> bool" where
  "text_Equals m other = (other = Some m)"

definition radio ::
  "int \<Rightarrow> int \<Rightarrow> byte list option \<Rightarrow> (byte list \<times> string option) list \<Rightarrow>
   (string, byte list, (byte list \<times> string option) list) Stream"
where
  "radio mi po md script =
     \<lparr>Name = ''radio'', Genre = ''jazz'', Description = ''a station'', URL = ''http://radio/'',
      Bitrate = 128, MetadataCallbackFunc = Some ''print'', metaint = mi, metadata = md,
      pos = po, rc = script\<rparr>"

text \<open>
  A request constructor that rejects the one-character URL \<^verbatim>\<open>:\<close> (a URL without a
  scheme), and a client whose server answers every request with the given headers and
  the given body.
\<close>

definition parse_NewRequest :: "string \<Rightarrow> string \<Rightarrow> string + request" where
  "parse_NewRequest method url =
     (if url = '':'' then Inl ''missing protocol scheme''
      else Inr \<lparr>req_Method = method, req_URL = url, req_Header = []\<rparr>)"

definition server_Do ::
  "Header \<Rightarrow> (byte list \<times> string option) list \<Rightarrow> request \<Rightarrow>
   string + (byte list \<times> string option) list response"
where
  "server_Do h body req = Inr \<lparr>resp_Header = h, Body = body\<rparr>"

section \<open>Slices and the steps of Read\<close>

lemma slice_lo_Some:
  "0 \<le> lo \<Longrightarrow> lo \<le> int (length (fst p)) \<Longrightarrow>
   slice_lo p lo = Some (drop (nat lo) (fst p), snd p)"
  by (simp add: slice_lo_def slice_lo_hi_def)

lemma slice_lo_None:
  "lo < 0 \<or> int (length (fst p)) < lo \<Longrightarrow> slice_lo p lo = None"
  by (auto simp add: slice_lo_def slice_lo_hi_def)

lemma length_byte:
  "0 \<le> ms \<Longrightarrow> ms < int (length buf) \<Longrightarrow>
   slice_lo_hi (buf, sp) ms (ms + 1) = Some ([buf ! nat ms], drop (nat (ms + 1)) (buf @ sp))"
  by (simp add: slice_lo_hi_def take_Suc_conv_app_nth)

lemma block_slice:
  "0 \<le> ms \<Longrightarrow> 0 \<le> ml \<Longrightarrow> ms + 1 + ml \<le> int (length buf) \<Longrightarrow>
   slice_lo_hi (buf, sp) (ms + 1) (ms + 1 + ml) =
     Some (take (nat ml) (drop (nat (ms + 1)) buf), drop (nat (ms + 1 + ml)) (buf @ sp))"
  by (simp add: slice_lo_hi_def)

lemma copy_shift:
  assumes "k + d \<le> length buf"
  shows "take k buf @ copy (drop k buf) (drop (k + d) buf) =
         take k buf @ drop (k + d) buf @ drop (length buf - d) buf"
proof -
  have "length buf - (k + d) + k = length buf - d" using assms by simp
  then show ?thesis using assms by (simp add: copy_def)
qed

lemma Read_panics:
  assumes src: "rc_Read (rc s) (fst p) = (n, err, buf, r)"
    and bnd: "metaint s < pos s + n"
    and ms: "metaint s - pos s = ms"
    and bad: "ms < 0 \<or> int (length buf) \<le> ms \<or>
              int (length buf) < ms + 1 + uint (buf ! nat ms) * 16"
  shows "Read NM EQ rc_Read s calls p = Panic"
proof (cases "slice_lo_hi (buf, snd p) ms (ms + 1)")
  case None
  then show ?thesis using src bnd ms by (simp add: Read_def)
next
  case (Some lb)
  define cells where "cells = buf @ snd p"
  have "slice_lo_hi (buf, snd p) ms (ms + 1) =
      (if 0 \<le> ms \<and> ms + 1 \<le> int (length cells)
       then Some (take 1 (drop (nat ms) cells), drop (nat (ms + 1)) cells) else None)"
    by (simp add: slice_lo_hi_def cells_def Let_def)
  with Some have rng: "0 \<le> ms" "ms + 1 \<le> int (length cells)"
    and "fst lb ! 0 = cells ! nat ms"
    by (auto split: if_splits)
  then have lb: "fst lb ! 0 = (buf @ snd p) ! nat ms"
    by (simp add: cells_def)
  define ml where "ml = uint (fst lb ! 0) * 16"
  have "0 \<le> ml" by (simp add: ml_def)
  have "int (length buf) < ms + 1 + ml"
  proof (cases "ms < int (length buf)")
    case True
    with rng have "nat ms < length buf" by linarith
    with lb have "fst lb ! 0 = buf ! nat ms" by (simp add: nth_append)
    with bad rng True show ?thesis by (simp add: ml_def)
  next
    case False
    with \<open>0 \<le> ml\<close> show ?thesis by simp
  qed
  then have no: "slice_lo (buf, snd p) (ms + 1 + ml) = None"
    by (simp add: slice_lo_None)
  show ?thesis
    using src bnd ms Some no
    by (simp add: Read_def Let_def ml_def [symmetric] split: option.split prod.split)
qed

lemma Read_pass:
  assumes "rc_Read (rc s) (fst p) = (n, err, buf, r)" and "pos s + n \<le> metaint s"
  shows "Read NM EQ rc_Read s calls p =
         Return (n, err, buf, s\<lparr>rc := r, pos := pos s + n\<rparr>, calls)"
  using assms by (simp add: Read_def)

lemma Read_boundary:
  assumes src: "rc_Read (rc s) (fst p) = (n, err, buf, r)"
    and bnd: "metaint s < pos s + n"
    and ms: "metaint s - pos s = ms" "0 \<le> ms"
    and ml: "uint (buf ! nat ms) * 16 = ml" "ms + 1 + ml \<le> int (length buf)"
    and m: "NM (take (nat ml) (drop (nat (ms + 1)) buf)) = m"
  shows "Read NM EQ rc_Read s calls p =
     Return (n - 1 - ml, err,
             take (nat ms) buf @ drop (nat (ms + 1 + ml)) buf @ drop (length buf - nat (1 + ml)) buf,
             s\<lparr>rc := r,
               metadata := (if 0 < ml \<and> \<not> EQ m (metadata s) then Some m else metadata s),
               pos := pos s + n - metaint s - ml - 1\<rparr>,
             (if 0 < ml \<and> \<not> EQ m (metadata s)
              then (case MetadataCallbackFunc s of None \<Rightarrow> calls | Some f \<Rightarrow> calls @ [(f, m)])
              else calls))"
proof -
  have ml0: "0 \<le> ml" using ml(1) by auto
  have lt: "ms < int (length buf)" using ml(2) ml0 by simp
  have nb: "\<not> pos s + n \<le> metaint s" using bnd by simp
  have lb: "slice_lo_hi (buf, snd p) ms (ms + 1) =
      Some ([buf ! nat ms], drop (nat (ms + 1)) (buf @ snd p))"
    using ms lt by (simp add: length_byte)
  have blk: "slice_lo_hi (buf, snd p) (ms + 1) (ms + 1 + ml) =
      Some (take (nat ml) (drop (nat (ms + 1)) buf), drop (nat (ms + 1 + ml)) (buf @ snd p))"
    using ms ml ml0 by (simp add: block_slice)
  have dst: "slice_lo (buf, snd p) ms = Some (drop (nat ms) buf, snd p)"
    using ms lt by (simp add: slice_lo_Some)
  have sr: "slice_lo (buf, snd p) (ms + 1 + ml) = Some (drop (nat (ms + 1 + ml)) buf, snd p)"
    using ms ml ml0 by (simp add: slice_lo_Some)
  have "nat ms + nat (1 + ml) \<le> length buf" using ms ml ml0 by linarith
  from copy_shift [OF this]
  have cp: "take (nat ms) buf @ copy (drop (nat ms) buf) (drop (nat (ms + 1 + ml)) buf) =
        take (nat ms) buf @ drop (nat (ms + 1 + ml)) buf @ drop (length buf - nat (1 + ml)) buf"
    using ms ml0 by (simp add: nat_add_distrib add.assoc)
  show ?thesis
  proof (cases "ml = 0")
    case True
    with sr cp have sr0: "slice_lo (buf, snd p) (ms + 1) = Some (drop (nat (ms + 1)) buf, snd p)"
      and cp0: "take (nat ms) buf @ copy (drop (nat ms) buf) (drop (nat (ms + 1)) buf) =
        take (nat ms) buf @ drop (nat (ms + 1)) buf @ drop (length buf - nat 1) buf"
      by simp_all
    from True show ?thesis
      by (simp add: Read_def src nb ms(1) lb ml(1) dst sr0 cp0 Let_def)
  next
    case False
    with ml0 have "0 < ml" by simp
    then show ?thesis
      by (simp add: Read_def src nb ms(1) lb ml(1) blk m dst sr cp Let_def)
  qed
qed

text \<open>A call that returns took one of the two ways out.\<close>

lemma Read_returns:
  assumes src: "rc_Read (rc s) (fst p) = (n, err, buf, r)"
    and ret: "Read NM EQ rc_Read s calls p = Return res"
  shows "pos s + n \<le> metaint s \<or>
         (metaint s < pos s + n \<and> 0 \<le> metaint s - pos s \<and>
          metaint s - pos s + 1 + uint (buf ! nat (metaint s - pos s)) * 16 \<le> int (length buf))"
proof (rule ccontr)
  assume "\<not> ?thesis"
  then have "metaint s < pos s + n" and
    "metaint s - pos s < 0 \<or> int (length buf) \<le> metaint s - pos s \<or>
     int (length buf) < metaint s - pos s + 1 + uint (buf ! nat (metaint s - pos s)) * 16"
    by auto
  from Read_panics [where rc_Read = rc_Read and s = s and p = p, OF src this(1) refl this(2)] ret
  show False by simp
qed

lemma Read_keeps_metaint:
  assumes "Read NM EQ rc_Read s calls p = Return (k, e, out, s', calls')"
  shows "metaint s' = metaint s"
proof -
  obtain n err buf r where src: "rc_Read (rc s) (fst p) = (n, err, buf, r)"
    by (cases "rc_Read (rc s) (fst p)") auto
  from Read_returns [where rc_Read = rc_Read and s = s and p = p, OF src assms] show ?thesis
  proof
    assume "pos s + n \<le> metaint s"
    from Read_pass [where rc_Read = rc_Read and s = s and p = p, OF src this] assms
    show ?thesis by auto
  next
    assume "metaint s < pos s + n \<and> 0 \<le> metaint s - pos s \<and>
          metaint s - pos s + 1 + uint (buf ! nat (metaint s - pos s)) * 16 \<le> int (length buf)"
    then have a: "metaint s < pos s + n" "0 \<le> metaint s - pos s"
      "metaint s - pos s + 1 + uint (buf ! nat (metaint s - pos s)) * 16 \<le> int (length buf)"
      by auto
    from Read_boundary [where rc_Read = rc_Read and s = s and p = p, OF src a(1) refl a(2) refl a(3) refl]
      assms
    show ?thesis by auto
  qed
qed

section \<open>Read: the pass-through branch\<close>

text \<open>
  C3. When the source delivers \<open>n\<close> bytes and \<open>pos + n \<le> metaint\<close>, \<^verbatim>\<open>Read\<close> returns
  the count and the error of the source, the buffer is as the source left it, \<open>pos\<close>
  has advanced by \<open>n\<close>, and nothing else of the stream (but the state of the source)
  and nothing of the trace of callback invocations has changed.
\<close>

theorem Read_pass_through:
  assumes "rc_Read (rc s) (fst p) = (n, err, buf, r)"
    and "pos s + n \<le> metaint s"
  shows "Read NewMetadata Equals rc_Read s calls p =
         Return (n, err, buf, s\<lparr>rc := r, pos := pos s + n\<rparr>, calls)"
  using assms by (rule Read_pass)

theorem Read_pass_through_witness:
  "scripted_Read (rc (radio 10 3 None [([65, 66, 67], None)])) (fst (replicate 8 0, [])) =
     (3, None, [65, 66, 67, 0, 0, 0, 0, 0], []) \<and>
   pos (radio 10 3 None [([65, 66, 67], None)]) + 3 \<le> metaint (radio 10 3 None [([65, 66, 67], None)]) \<and>
   Read text_NewMetadata text_Equals scripted_Read (radio 10 3 None [([65, 66, 67], None)]) []
        (replicate 8 0, []) =
     Return (3, None, [65, 66, 67, 0, 0, 0, 0, 0], radio 10 6 None [], [])"
proof -
  have src: "scripted_Read (rc (radio 10 3 None [([65, 66, 67], None)])) (fst (replicate 8 0, [])) =
     (3, None, [65, 66, 67, 0, 0, 0, 0, 0], [])"
    by code_simp
  have le: "pos (radio 10 3 None [([65, 66, 67], None)]) + 3 \<le>
     metaint (radio 10 3 None [([65, 66, 67], None)])"
    by (simp add: radio_def)
  from Read_pass_through [where rc_Read = scripted_Read, OF src le,
      of text_NewMetadata text_Equals "[]"]
  show ?thesis using src le by (simp add: radio_def)
qed

section \<open>Read: a block that does not end within the buffer\<close>

text \<open>
  C1. The claim is that no call of \<^verbatim>\<open>Read\<close> faults. The code slices the buffer at the
  offsets the length byte declares without comparing them to the length of the buffer:
  when the boundary falls in the bytes read and the block declared there ends past the
  buffer, the call panics.
\<close>

theorem Read_block_past_buffer_panics:
  assumes "rc_Read (rc s) (fst p) = (n, err, buf, r)"
    and "metaint s < pos s + n"
    and "metadataStart = metaint s - pos s"
    and "int (length buf) < metadataStart + 1 + uint (buf ! nat metadataStart) * 16"
  shows "Read NewMetadata Equals rc_Read s calls p = Panic"
  using assms Read_panics [where rc_Read = rc_Read and s = s and p = p and ms = metadataStart]
  by simp

theorem Read_block_past_buffer_panics_witness:
  "scripted_Read (rc (radio 10 0 None [(replicate 10 65 @ [1, 88, 59, 0, 0, 0], None)]))
       (fst (replicate 16 0, [])) =
     (16, None, replicate 10 65 @ [1, 88, 59, 0, 0, 0], []) \<and>
   metaint (radio 10 0 None [(replicate 10 65 @ [1, 88, 59, 0, 0, 0], None)])
     < pos (radio 10 0 None [(replicate 10 65 @ [1, 88, 59, 0, 0, 0], None)]) + 16 \<and>
   int (length (replicate 10 65 @ [1, 88, 59, 0, 0, 0 :: byte]))
     < 10 + 1 + uint ((replicate 10 65 @ [1, 88, 59, 0, 0, 0 :: byte]) ! nat 10) * 16 \<and>
   Read text_NewMetadata text_Equals scripted_Read
        (radio 10 0 None [(replicate 10 65 @ [1, 88, 59, 0, 0, 0], None)]) []
        (replicate 16 0, []) = Panic"
proof -
  let ?s = "radio 10 0 None [(replicate 10 65 @ [1, 88, 59, 0, 0, 0], None)]"
  have src: "scripted_Read (rc ?s) (fst (replicate 16 0, [])) =
     (16, None, replicate 10 65 @ [1, 88, 59, 0, 0, 0], [])"
    by code_simp
  have bnd: "metaint ?s < pos ?s + 16" by (simp add: radio_def)
  have ms: "10 = metaint ?s - pos ?s" by (simp add: radio_def)
  have past: "int (length (replicate 10 65 @ [1, 88, 59, 0, 0, 0 :: byte]))
     < 10 + 1 + uint ((replicate 10 65 @ [1, 88, 59, 0, 0, 0 :: byte]) ! nat 10) * 16"
    by code_simp
  from Read_block_past_buffer_panics [where rc_Read = scripted_Read, OF src bnd ms past,
      of text_NewMetadata text_Equals "[]"]
  show ?thesis using src bnd past by simp
qed

section \<open>Read: the position after a boundary\<close>

text \<open>
  When the whole block lies within the \<open>n\<close> bytes read, no more than \<open>metaint\<close> bytes
  follow it and nothing wraps, the position after the call is within
  \<open>0 \<le> pos \<le> metaint\<close>.
\<close>

lemma Read_whole_block_keeps_pos:
  assumes "rc_Read (rc s) (fst p) = (n, err, buf, r)"
    and "metaint s < pos s + n" and "pos s \<le> metaint s" and "n \<le> int (length buf)"
    and "metadataStart = metaint s - pos s"
    and "blockLen = uint (buf ! nat metadataStart) * 16"
    and "metadataStart + 1 + blockLen \<le> n"
    and "n - (metadataStart + 1 + blockLen) \<le> metaint s"
    and "Read NewMetadata Equals rc_Read s calls p = Return (k, e, out, s', calls')"
    and "no_wrap s n buf"
  shows "0 \<le> pos s' \<and> pos s' \<le> metaint s' \<and> metaint s' = metaint s"
proof -
  have ms: "metaint s - pos s = metadataStart" "0 \<le> metadataStart" using assms by simp_all
  have ml: "uint (buf ! nat metadataStart) * 16 = blockLen" using assms by simp
  have fits: "metadataStart + 1 + blockLen \<le> int (length buf)" using assms by simp
  from Read_boundary [where rc_Read = rc_Read and s = s and p = p and NM = NewMetadata
      and EQ = Equals and calls = calls, OF assms(1) assms(2) ms ml fits refl] assms(9)
  have "s' = s\<lparr>rc := r,
           metadata := (if 0 < blockLen \<and>
               \<not> Equals (NewMetadata (take (nat blockLen) (drop (nat (metadataStart + 1)) buf)))
                   (metadata s)
             then Some (NewMetadata (take (nat blockLen) (drop (nat (metadataStart + 1)) buf)))
             else metadata s),
           pos := pos s + n - metaint s - blockLen - 1\<rparr>"
    by simp
  then show ?thesis using assms(5) assms(7) assms(8) by simp
qed

text \<open>
  When more than \<open>metaint\<close> bytes follow the block in the bytes read, the next boundary
  lies in the same chunk and is not handled: the position after the call is beyond
  \<open>metaint\<close>. With \<open>metaint = 2\<close> and ten bytes read, the third an empty length byte:
\<close>

lemma Read_second_boundary_skipped:
  "Read text_NewMetadata text_Equals scripted_Read
     (radio 2 0 None [([65, 65, 0, 66, 66, 0, 67, 67, 0, 68], None)]) [] (replicate 10 0, []) =
   Return (9, None, [65, 65, 66, 66, 0, 67, 67, 0, 68, 68], radio 2 7 None [], [])"
  by code_simp

text \<open>
  C2. The claim is that \<open>0 \<le> pos \<le> metaint\<close> is kept by every call. When the source
  delivers the bytes up to the length byte and not the whole block (a short read), and
  the buffer is long enough for the slices, the call returns with a negative \<open>pos\<close>,
  and with a negative count.
\<close>

theorem Read_short_read_negative_pos:
  assumes "rc_Read (rc s) (fst p) = (n, err, buf, r)"
    and "0 \<le> pos s" and "pos s \<le> metaint s"
    and "metaint s < pos s + n"
    and "metadataStart = metaint s - pos s"
    and "blockLen = uint (buf ! nat metadataStart) * 16"
    and "n < metadataStart + 1 + blockLen"
    and "metadataStart + 1 + blockLen \<le> int (length buf)"
  shows "case Read NewMetadata Equals rc_Read s calls p of
           Panic \<Rightarrow> False
         | Return (k, e, out, s', calls') \<Rightarrow>
             pos s' = pos s + n - metaint s - blockLen - 1 \<and> pos s' < 0 \<and>
             k = n - 1 - blockLen \<and> k < metadataStart"
proof -
  have ms: "metaint s - pos s = metadataStart" "0 \<le> metadataStart" using assms by simp_all
  have ml: "uint (buf ! nat metadataStart) * 16 = blockLen" using assms by simp
  from Read_boundary [where rc_Read = rc_Read and s = s and p = p and NM = NewMetadata
      and EQ = Equals and calls = calls, OF assms(1) assms(4) ms ml assms(8) refl]
  show ?thesis using assms by simp
qed

theorem Read_short_read_negative_pos_witness:
  "scripted_Read (rc (radio 10 0 None [(replicate 10 65 @ [1], None)])) (fst (replicate 32 0, [])) =
     (11, None, replicate 10 65 @ [1] @ replicate 21 0, []) \<and>
   0 \<le> pos (radio 10 0 None [(replicate 10 65 @ [1], None)]) \<and>
   pos (radio 10 0 None [(replicate 10 65 @ [1], None)])
     \<le> metaint (radio 10 0 None [(replicate 10 65 @ [1], None)]) \<and>
   Read text_NewMetadata text_Equals scripted_Read (radio 10 0 None [(replicate 10 65 @ [1], None)]) []
        (replicate 32 0, []) =
     Return (- 6, None, replicate 10 65 @ replicate 22 0, radio 10 (- 16) (Some []) [],
             [(''print'', [])])"
proof -
  let ?s = "radio 10 0 None [(replicate 10 65 @ [1], None)]"
  let ?buf = "replicate 10 65 @ [1] @ replicate 21 (0 :: byte)"
  have src: "scripted_Read (rc ?s) (fst (replicate 32 0, [])) = (11, None, ?buf, [])"
    by code_simp
  have inv: "0 \<le> pos ?s" "pos ?s \<le> metaint ?s" by (simp_all add: radio_def)
  have bnd: "metaint ?s < pos ?s + 11" by (simp add: radio_def)
  have ms: "10 = metaint ?s - pos ?s" by (simp add: radio_def)
  have ml: "16 = uint (?buf ! nat 10) * 16" by code_simp
  have short: "(11 :: int) < 10 + 1 + 16" by simp
  have fits: "10 + 1 + 16 \<le> int (length ?buf)" by simp
  have run: "Read text_NewMetadata text_Equals scripted_Read ?s [] (replicate 32 0, []) =
     Return (- 6, None, replicate 10 65 @ replicate 22 0, radio 10 (- 16) (Some []) [],
             [(''print'', [])])"
    by code_simp
  from Read_short_read_negative_pos [where rc_Read = scripted_Read and s = ?s
      and NewMetadata = text_NewMetadata and Equals = text_Equals and calls = "[]",
      OF src inv bnd ms ml short fits]
  show ?thesis using src inv run by simp
qed

section \<open>Read: a whole block within the bytes read\<close>

text \<open>
  C4. When the boundary falls inside the \<open>n\<close> bytes read (\<open>pos \<le> metaint < pos + n\<close>, the
  sum within the range of \<^verbatim>\<open>int\<close>, so that the code's comparison sees it as it is) and
  the block ends within them, \<^verbatim>\<open>Read\<close> returns the count \<open>n - 1 - blockLen\<close> and leaves
  \<open>pos = (pos + n) - metaint - blockLen - 1\<close>. The bytes after the block are moved down
  to \<open>metadataStart\<close>: the bytes returned are those before the boundary followed by the
  bytes from \<open>metadataStart + 1 + blockLen\<close> up to \<open>n\<close>. (The move takes every byte of the
  buffer after the block, and the last \<open>1 + blockLen\<close> cells keep their content.)
\<close>

theorem Read_compacts_block:
  assumes "rc_Read (rc s) (fst p) = (n, err, buf, r)"
    and "metaint s < pos s + n" and "pos s \<le> metaint s" and "n \<le> int (length buf)"
    and "metadataStart = metaint s - pos s"
    and "blockLen = uint (buf ! nat metadataStart) * 16"
    and "metadataStart + 1 + blockLen \<le> n"
    and "no_wrap s n buf"
  shows "case Read NewMetadata Equals rc_Read s calls p of
           Panic \<Rightarrow> False
         | Return (k, e, out, s', calls') \<Rightarrow>
             k = n - 1 - blockLen \<and>
             pos s' = (pos s + n) - metaint s - blockLen - 1 \<and>
             out = take (nat metadataStart) buf @ drop (nat (metadataStart + 1 + blockLen)) buf @
                   drop (length buf - nat (1 + blockLen)) buf \<and>
             take (nat k) out =
               take (nat metadataStart) buf @
               take (nat (n - (metadataStart + 1 + blockLen)))
                 (drop (nat (metadataStart + 1 + blockLen)) buf)"
proof -
  have ms: "metaint s - pos s = metadataStart" "0 \<le> metadataStart" using assms by simp_all
  have ml: "uint (buf ! nat metadataStart) * 16 = blockLen" using assms by simp
  have ml0: "0 \<le> blockLen" using ml by auto
  have fits: "metadataStart + 1 + blockLen \<le> int (length buf)" using assms by simp
  have len: "nat metadataStart \<le> length buf" using fits ml0 ms by linarith
  have k: "nat (n - 1 - blockLen) =
           nat metadataStart + nat (n - (metadataStart + 1 + blockLen))"
    using assms(7) ms(2) by linarith
  have room: "nat (n - (metadataStart + 1 + blockLen)) \<le>
              length buf - nat (metadataStart + 1 + blockLen)"
    using assms(4) assms(7) ms(2) ml0 by linarith
  from Read_boundary [where rc_Read = rc_Read and s = s and p = p and NM = NewMetadata
      and EQ = Equals and calls = calls, OF assms(1) assms(2) ms ml fits refl]
  show ?thesis using len room by (simp add: k min_absorb2)
qed

theorem Read_compacts_block_witness:
  "scripted_Read (rc (radio 10 0 None
       [(replicate 10 65 @ [1, 88, 59] @ replicate 14 0 @ replicate 5 66, None)]))
       (fst (replicate 32 0, [])) =
     (32, None, replicate 10 65 @ [1, 88, 59] @ replicate 14 0 @ replicate 5 66, []) \<and>
   no_wrap (radio 10 0 None
       [(replicate 10 65 @ [1, 88, 59] @ replicate 14 0 @ replicate 5 66, None)]) 32
     (replicate 10 65 @ [1, 88, 59] @ replicate 14 0 @ replicate 5 66) \<and>
   Read text_NewMetadata text_Equals scripted_Read
        (radio 10 0 None [(replicate 10 65 @ [1, 88, 59] @ replicate 14 0 @ replicate 5 66, None)])
        [] (replicate 32 0, []) =
     Return (15, None, replicate 10 65 @ replicate 5 66 @ replicate 12 0 @ replicate 5 66,
             radio 10 5 (Some [88, 59]) [], [(''print'', [88, 59])])"
proof -
  let ?buf = "replicate 10 65 @ [1, 88, 59] @ replicate 14 0 @ replicate 5 (66 :: byte)"
  let ?s = "radio 10 0 None [(?buf, None)]"
  have src: "scripted_Read (rc ?s) (fst (replicate 32 0, [])) = (32, None, ?buf, [])"
    by code_simp
  have bnd: "metaint ?s < pos ?s + 32" and inv: "pos ?s \<le> metaint ?s"
    by (simp_all add: radio_def)
  have n: "32 \<le> int (length ?buf)" by simp
  have ms: "10 = metaint ?s - pos ?s" by (simp add: radio_def)
  have ml: "16 = uint (?buf ! nat 10) * 16" by code_simp
  have whole: "(10 :: int) + 1 + 16 \<le> 32" by simp
  have nw: "no_wrap ?s 32 ?buf"
    by (simp add: no_wrap_def int_range_def radio_def)
  have run: "Read text_NewMetadata text_Equals scripted_Read ?s [] (replicate 32 0, []) =
     Return (15, None, replicate 10 65 @ replicate 5 66 @ replicate 12 0 @ replicate 5 66,
             radio 10 5 (Some [88, 59]) [], [(''print'', [88, 59])])"
    by code_simp
  from Read_compacts_block [where rc_Read = scripted_Read and s = ?s
      and NewMetadata = text_NewMetadata and Equals = text_Equals and calls = "[]",
      OF src bnd inv n ms ml whole nw]
  show ?thesis using src nw run by simp
qed

section \<open>Read: an empty block\<close>

text \<open>
  C6. When the boundary falls inside the bytes read (\<open>pos \<le> metaint < pos + n\<close>, the sum
  within the range of \<^verbatim>\<open>int\<close>) and the length byte there is 0,
  \<^verbatim>\<open>Read\<close> removes that one byte: the count is \<open>n - 1\<close>, the bytes after the length
  byte move down by one, and the snapshot of the stream and the trace of callback
  invocations are as they were. The result does not depend on \<open>NewMetadata\<close> or
  \<open>Equals\<close>: neither is called.
\<close>

theorem Read_empty_block:
  assumes "rc_Read (rc s) (fst p) = (n, err, buf, r)"
    and "metaint s < pos s + n" and "pos s \<le> metaint s" and "n \<le> int (length buf)"
    and "metadataStart = metaint s - pos s"
    and "buf ! nat metadataStart = 0"
    and "no_wrap s n buf"
  shows "Read NewMetadata Equals rc_Read s calls p =
         Return (n - 1, err,
                 take (nat metadataStart) buf @ drop (nat (metadataStart + 1)) buf @
                 drop (length buf - 1) buf,
                 s\<lparr>rc := r, pos := pos s + n - metaint s - 1\<rparr>, calls)"
proof -
  have ms: "metaint s - pos s = metadataStart" "0 \<le> metadataStart" using assms by simp_all
  have ml: "uint (buf ! nat metadataStart) * 16 = 0" using assms by simp
  have fits: "metadataStart + 1 + 0 \<le> int (length buf)" using assms by simp
  from Read_boundary [where rc_Read = rc_Read and s = s and p = p and NM = NewMetadata
      and EQ = Equals and calls = calls, OF assms(1) assms(2) ms ml fits refl]
  show ?thesis by simp
qed

theorem Read_empty_block_witness:
  "scripted_Read (rc (radio 4 1 (Some [88]) [([65, 65, 65, 0, 66, 66], None)]))
       (fst (replicate 6 0, [])) = (6, None, [65, 65, 65, 0, 66, 66], []) \<and>
   no_wrap (radio 4 1 (Some [88]) [([65, 65, 65, 0, 66, 66], None)]) 6 [65, 65, 65, 0, 66, 66] \<and>
   Read text_NewMetadata text_Equals scripted_Read
        (radio 4 1 (Some [88]) [([65, 65, 65, 0, 66, 66], None)]) [] (replicate 6 0, []) =
     Return (5, None, [65, 65, 65, 66, 66, 66], radio 4 2 (Some [88]) [], [])"
proof -
  let ?buf = "[65, 65, 65, 0, 66, 66 :: byte]"
  let ?s = "radio 4 1 (Some [88]) [(?buf, None)]"
  have src: "scripted_Read (rc ?s) (fst (replicate 6 0, [])) = (6, None, ?buf, [])"
    by code_simp
  have bnd: "metaint ?s < pos ?s + 6" and inv: "pos ?s \<le> metaint ?s"
    by (simp_all add: radio_def)
  have n: "6 \<le> int (length ?buf)" by simp
  have ms: "3 = metaint ?s - pos ?s" by (simp add: radio_def)
  have zero: "?buf ! nat 3 = 0" by code_simp
  have nw: "no_wrap ?s 6 ?buf"
    by (simp add: no_wrap_def int_range_def radio_def)
  from Read_empty_block [where rc_Read = scripted_Read and s = ?s
      and NewMetadata = text_NewMetadata and Equals = text_Equals and calls = "[]",
      OF src bnd inv n ms zero nw]
  show ?thesis using src nw by (simp add: radio_def)
qed

section \<open>Read: the error of the source\<close>



section \<open>Read: change detection\<close>

lemma Read_decodes:
  assumes "decodes NM rc_Read s p m"
  shows "\<exists>k e out r q.
           Read NM EQ rc_Read s calls p =
             Return (k, e, out,
                     s\<lparr>rc := r, metadata := (if EQ m (metadata s) then metadata s else Some m),
                       pos := q\<rparr>,
                     (if EQ m (metadata s) then calls
                      else calls @ invocation (MetadataCallbackFunc s) m))"
proof -
  obtain n err buf r where src: "rc_Read (rc s) (fst p) = (n, err, buf, r)"
    by (cases "rc_Read (rc s) (fst p)") auto
  define ms where "ms = metaint s - pos s"
  define ml where "ml = uint (buf ! nat ms) * 16"
  from assms src have d: "metaint s < pos s + n" "0 \<le> ms" "0 < ml"
    "ms + 1 + ml \<le> int (length buf)" "m = NM (take (nat ml) (drop (nat (ms + 1)) buf))"
    by (simp_all add: decodes_def Let_def ms_def ml_def)
  from Read_boundary [where rc_Read = rc_Read and s = s and p = p and NM = NM and EQ = EQ
      and calls = calls, OF src d(1) ms_def [symmetric] d(2) ml_def [symmetric] d(4) d(5) [symmetric]]
  show ?thesis using d(3) by (auto simp add: invocation_def split: option.split)
qed

text \<open>
  C5. Let a call of \<^verbatim>\<open>Read\<close> decode a block of positive length to the snapshot \<open>m\<close>
  (\<open>decodes\<close>: the boundary is met without wrap-around and the block lies within the
  buffer). The call returns. If \<open>Equals\<close> finds \<open>m\<close> different from the snapshot of the stream, the
  stream holds \<open>m\<close> afterwards and the callback, when set, has been invoked once more,
  with \<open>m\<close>; if it finds them equal, the snapshot and the trace of invocations are as
  they were. So of two consecutive calls that decode blocks, the first one a change,
  the second adds no invocation when its block is equal to the first and one
  invocation, with its own snapshot, when it differs.
\<close>

theorem Read_metadata_change:
  assumes "decodes NewMetadata rc_Read s p m"
  shows "case Read NewMetadata Equals rc_Read s calls p of
           Panic \<Rightarrow> False
         | Return (k, e, out, s1, calls1) \<Rightarrow>
             (if Equals m (metadata s)
              then metadata s1 = metadata s \<and> calls1 = calls
              else metadata s1 = Some m \<and>
                   calls1 = calls @ invocation (MetadataCallbackFunc s) m) \<and>
             (\<forall>q m2. decodes NewMetadata rc_Read s1 q m2 \<longrightarrow> \<not> Equals m (metadata s) \<longrightarrow>
                (case Read NewMetadata Equals rc_Read s1 calls1 q of
                   Panic \<Rightarrow> False
                 | Return (k2, e2, out2, s2, calls2) \<Rightarrow>
                     calls2 = calls @ invocation (MetadataCallbackFunc s) m @
                       (if Equals m2 (Some m) then []
                        else invocation (MetadataCallbackFunc s) m2)))"
proof -
  from Read_decodes [OF assms, of Equals calls]
  obtain k e out r q where
    one: "Read NewMetadata Equals rc_Read s calls p =
      Return (k, e, out,
              s\<lparr>rc := r, metadata := (if Equals m (metadata s) then metadata s else Some m),
                pos := q\<rparr>,
              (if Equals m (metadata s) then calls
               else calls @ invocation (MetadataCallbackFunc s) m))"
    by blast
  let ?s1 = "s\<lparr>rc := r, metadata := (if Equals m (metadata s) then metadata s else Some m),
                pos := q\<rparr>"
  let ?calls1 = "if Equals m (metadata s) then calls
               else calls @ invocation (MetadataCallbackFunc s) m"
  have two: "case Read NewMetadata Equals rc_Read ?s1 ?calls1 q' of
                   Panic \<Rightarrow> False
                 | Return (k2, e2, out2, s2, calls2) \<Rightarrow>
                     calls2 = calls @ invocation (MetadataCallbackFunc s) m @
                       (if Equals m2 (Some m) then []
                        else invocation (MetadataCallbackFunc s) m2)"
    if d2: "decodes NewMetadata rc_Read ?s1 q' m2" and ch: "\<not> Equals m (metadata s)"
    for q' m2
  proof -
    from Read_decodes [OF d2, of Equals ?calls1]
    show ?thesis using ch by auto
  qed
  show ?thesis
    unfolding one using two by simp
qed

theorem Read_metadata_change_witness:
  "decodes text_NewMetadata scripted_Read
     (radio 10 0 None [(replicate 10 65 @ [1, 88, 59] @ replicate 14 0, None),
                       (replicate 10 65 @ [1, 88, 59] @ replicate 14 0, None),
                       (replicate 10 65 @ [1, 89, 59] @ replicate 14 0, None)])
     (replicate 27 0, []) [88, 59] \<and>
   Read text_NewMetadata text_Equals scripted_Read
     (radio 10 0 None [(replicate 10 65 @ [1, 88, 59] @ replicate 14 0, None),
                       (replicate 10 65 @ [1, 88, 59] @ replicate 14 0, None),
                       (replicate 10 65 @ [1, 89, 59] @ replicate 14 0, None)])
     [] (replicate 27 0, []) =
   Return (10, None, replicate 10 65 @ [1, 88, 59] @ replicate 14 0,
           radio 10 0 (Some [88, 59]) [(replicate 10 65 @ [1, 88, 59] @ replicate 14 0, None),
                                       (replicate 10 65 @ [1, 89, 59] @ replicate 14 0, None)],
           [(''print'', [88, 59])]) \<and>
   decodes text_NewMetadata scripted_Read
     (radio 10 0 (Some [88, 59]) [(replicate 10 65 @ [1, 88, 59] @ replicate 14 0, None),
                                  (replicate 10 65 @ [1, 89, 59] @ replicate 14 0, None)])
     (replicate 27 0, []) [88, 59] \<and>
   Read text_NewMetadata text_Equals scripted_Read
     (radio 10 0 (Some [88, 59]) [(replicate 10 65 @ [1, 88, 59] @ replicate 14 0, None),
                                  (replicate 10 65 @ [1, 89, 59] @ replicate 14 0, None)])
     [(''print'', [88, 59])] (replicate 27 0, []) =
   Return (10, None, replicate 10 65 @ [1, 88, 59] @ replicate 14 0,
           radio 10 0 (Some [88, 59]) [(replicate 10 65 @ [1, 89, 59] @ replicate 14 0, None)],
           [(''print'', [88, 59])]) \<and>
   decodes text_NewMetadata scripted_Read
     (radio 10 0 (Some [88, 59]) [(replicate 10 65 @ [1, 89, 59] @ replicate 14 0, None)])
     (replicate 27 0, []) [89, 59] \<and>
   Read text_NewMetadata text_Equals scripted_Read
     (radio 10 0 (Some [88, 59]) [(replicate 10 65 @ [1, 89, 59] @ replicate 14 0, None)])
     [(''print'', [88, 59])] (replicate 27 0, []) =
   Return (10, None, replicate 10 65 @ [1, 89, 59] @ replicate 14 0,
           radio 10 0 (Some [89, 59]) [], [(''print'', [88, 59]), (''print'', [89, 59])])"
proof -
  let ?X = "(replicate 10 65 @ [1, 88, 59] @ replicate 14 0, None :: string option)"
  let ?Y = "(replicate 10 65 @ [1, 89, 59] @ replicate 14 (0 :: byte), None :: string option)"
  have d1: "decodes text_NewMetadata scripted_Read (radio 10 0 None [?X, ?X, ?Y])
     (replicate 27 0, []) [88, 59]"
    by code_simp
  have r1: "Read text_NewMetadata text_Equals scripted_Read (radio 10 0 None [?X, ?X, ?Y])
     [] (replicate 27 0, []) =
     Return (10, None, replicate 10 65 @ [1, 88, 59] @ replicate 14 0,
             radio 10 0 (Some [88, 59]) [?X, ?Y], [(''print'', [88, 59])])"
    by code_simp
  have d2: "decodes text_NewMetadata scripted_Read (radio 10 0 (Some [88, 59]) [?X, ?Y])
     (replicate 27 0, []) [88, 59]"
    by code_simp
  have r2: "Read text_NewMetadata text_Equals scripted_Read (radio 10 0 (Some [88, 59]) [?X, ?Y])
     [(''print'', [88, 59])] (replicate 27 0, []) =
     Return (10, None, replicate 10 65 @ [1, 88, 59] @ replicate 14 0,
             radio 10 0 (Some [88, 59]) [?Y], [(''print'', [88, 59])])"
    by code_simp
  have d3: "decodes text_NewMetadata scripted_Read (radio 10 0 (Some [88, 59]) [?Y])
     (replicate 27 0, []) [89, 59]"
    by code_simp
  have r3: "Read text_NewMetadata text_Equals scripted_Read (radio 10 0 (Some [88, 59]) [?Y])
     [(''print'', [88, 59])] (replicate 27 0, []) =
     Return (10, None, replicate 10 65 @ [1, 89, 59] @ replicate 14 0,
             radio 10 0 (Some [89, 59]) [], [(''print'', [88, 59]), (''print'', [89, 59])])"
    by code_simp
  note Read_metadata_change [OF d1, of text_Equals "[]"]
  then show ?thesis using d1 r1 d2 r2 d3 r3 by simp
qed

section \<open>Open: the numeric headers\<close>

lemma parse_digits_None: "parse_digits acc ds = None \<longleftrightarrow> \<not> list_all isDigit ds"
  by (induction ds arbitrary: acc) auto

lemma Atoi_digits:
  "ds = [] \<or> \<not> list_all isDigit ds \<Longrightarrow>
   (if ds = [] then None
      else (case parse_digits 0 ds of
              None \<Rightarrow> None
            | Some v \<Rightarrow>
                let i = (if neg then - v else v) in
                if - (2 ^ 63) \<le> i \<and> i < 2 ^ 63 then Some i else None)) = None"
proof (cases "ds = []")
  case True
  then show ?thesis by simp
next
  case False
  assume "ds = [] \<or> \<not> list_all isDigit ds"
  with False have "parse_digits 0 ds = None" by (simp add: parse_digits_None)
  with False show ?thesis by simp
qed

lemma Atoi_numeric: "\<not> numeric s \<Longrightarrow> Atoi s = None"
proof -
  assume n: "\<not> numeric s"
  consider (empty) "s = []" | (minus) cs where "s = CHR ''-'' # cs"
    | (plus) cs where "s = CHR ''+'' # cs"
    | (other) c cs where "s = c # cs" "c \<noteq> CHR ''-''" "c \<noteq> CHR ''+''"
    by (cases s) auto
  then show ?thesis
  proof cases
    case empty
    then show ?thesis by (simp add: Atoi_def)
  next
    case minus
    with n have "cs = [] \<or> \<not> list_all isDigit cs" by (auto simp add: numeric_def)
    from Atoi_digits [OF this, of True] minus show ?thesis by (simp add: Atoi_def)
  next
    case plus
    with n have "cs = [] \<or> \<not> list_all isDigit cs" by (auto simp add: numeric_def)
    from Atoi_digits [OF this, of False] plus show ?thesis by (simp add: Atoi_def)
  next
    case other
    with n have "s = [] \<or> \<not> list_all isDigit s" by (auto simp add: numeric_def)
    from Atoi_digits [OF this, of False] other show ?thesis by (simp add: Atoi_def)
  qed
qed

lemma Header_Get_absent: "absent h key \<Longrightarrow> Header_Get h key = []"
  by (simp add: absent_def Header_Get_def)

lemma Atoi_absent: "absent h key \<Longrightarrow> Atoi (Header_Get h key) = None"
  by (simp add: Header_Get_absent Atoi_numeric numeric_def)

lemma Open_response:
  assumes "NewRequest ''GET'' url = Inr req0" and "Do (icy_request req0) = Inr resp"
    and "\<not> list_ex (\<lambda>(k, v). v = []) (resp_Header resp)"
  shows "Open NewRequest Do url =
     (case Atoi (Header_Get (resp_Header resp) ''icy-br'') of
        None \<Rightarrow> Return (Inl CannotParseBitrate)
      | Some bitrate \<Rightarrow>
        (case Atoi (Header_Get (resp_Header resp) ''icy-metaint'') of
           None \<Rightarrow> Return (Inl CannotParseMetaint)
         | Some mi \<Rightarrow>
           Return (Inr \<lparr>Name = Header_Get (resp_Header resp) ''icy-name'',
                        Genre = Header_Get (resp_Header resp) ''icy-genre'',
                        Description = Header_Get (resp_Header resp) ''icy-description'',
                        URL = Header_Get (resp_Header resp) ''icy-url'',
                        Bitrate = bitrate,
                        MetadataCallbackFunc = None,
                        metaint = mi,
                        metadata = None,
                        pos = 0,
                        rc = Body resp\<rparr>)))"
  using assms by (simp add: Open_def icy_request_def Let_def)

lemma Open_stream:
  assumes "Open NewRequest Do url = Return (Inr s)"
  shows "\<exists>req resp. Do req = Inr resp \<and>
           Atoi (Header_Get (resp_Header resp) ''icy-br'') = Some (Bitrate s) \<and>
           Atoi (Header_Get (resp_Header resp) ''icy-metaint'') = Some (metaint s) \<and>
           pos s = 0 \<and> metadata s = None \<and> MetadataCallbackFunc s = None"
proof -
  from assms obtain req0 where req: "NewRequest ''GET'' url = Inr req0"
    by (cases "NewRequest ''GET'' url") (simp_all add: Open_def)
  from assms req obtain resp where resp: "Do (icy_request req0) = Inr resp"
    by (cases "Do (icy_request req0)") (simp_all add: Open_def icy_request_def Let_def)
  from assms req resp have vals: "\<not> list_ex (\<lambda>(k, v). v = []) (resp_Header resp)"
    by (auto simp add: Open_def icy_request_def Let_def split: if_splits)
  from assms [unfolded Open_response [where NewRequest = NewRequest and Do = Do, OF req resp vals]]
  have "Atoi (Header_Get (resp_Header resp) ''icy-br'') = Some (Bitrate s) \<and>
        Atoi (Header_Get (resp_Header resp) ''icy-metaint'') = Some (metaint s) \<and>
        pos s = 0 \<and> metadata s = None \<and> MetadataCallbackFunc s = None"
    by (auto split: option.splits)
  with resp show ?thesis by blast
qed

text \<open>
  C8. Let the request be made and the server answer (every header of the answer with a
  value, as \<^verbatim>\<open>net/http\<close> stores them). When \<^verbatim>\<open>icy-br\<close> or \<^verbatim>\<open>icy-metaint\<close> is absent or
  is not a decimal numeral, or \<^verbatim>\<open>Atoi\<close> rejects it, \<^verbatim>\<open>Open\<close> returns an error and no
  stream. When \<^verbatim>\<open>Atoi\<close> parses both, \<^verbatim>\<open>Open\<close> returns a stream whose \<open>Bitrate\<close> and
  \<open>metaint\<close> are the two integers.
\<close>

theorem Open_numeric_headers:
  fixes NewRequest :: "string \<Rightarrow> string \<Rightarrow> 'e + request"
    and Do :: "request \<Rightarrow> 'e + 'r response"
  assumes "NewRequest ''GET'' url = Inr req0" and "Do (icy_request req0) = Inr resp"
    and "\<not> list_ex (\<lambda>(k, v). v = []) (resp_Header resp)"
  shows "(absent (resp_Header resp) ''icy-br'' \<or> absent (resp_Header resp) ''icy-metaint'' \<or>
          \<not> numeric (Header_Get (resp_Header resp) ''icy-br'') \<or>
          \<not> numeric (Header_Get (resp_Header resp) ''icy-metaint'') \<or>
          Atoi (Header_Get (resp_Header resp) ''icy-br'') = None \<or>
          Atoi (Header_Get (resp_Header resp) ''icy-metaint'') = None \<longrightarrow>
          (\<exists>e. (Open NewRequest Do url :: ('e open_error + ('c, 'm, 'r) Stream) outcome) =
                Return (Inl e))) \<and>
         (\<forall>b mi. Atoi (Header_Get (resp_Header resp) ''icy-br'') = Some b \<and>
                 Atoi (Header_Get (resp_Header resp) ''icy-metaint'') = Some mi \<longrightarrow>
          (\<exists>s. (Open NewRequest Do url :: ('e open_error + ('c, 'm, 'r) Stream) outcome) =
                Return (Inr s) \<and> Bitrate s = b \<and> metaint s = mi))"
proof -
  let ?br = "Header_Get (resp_Header resp) ''icy-br''"
  let ?mi = "Header_Get (resp_Header resp) ''icy-metaint''"
  note run = Open_response [where NewRequest = NewRequest and Do = Do, OF assms]
  have fail: "\<exists>e. (Open NewRequest Do url :: ('e open_error + ('c, 'm, 'r) Stream) outcome) =
      Return (Inl e)"
    if "Atoi ?br = None \<or> Atoi ?mi = None"
  proof (cases "Atoi ?br")
    case None
    then show ?thesis by (simp add: run)
  next
    case (Some b)
    with that have "Atoi ?mi = None" by simp
    with Some show ?thesis by (simp add: run)
  qed
  have none: "Atoi ?br = None \<or> Atoi ?mi = None"
    if "absent (resp_Header resp) ''icy-br'' \<or> absent (resp_Header resp) ''icy-metaint'' \<or>
        \<not> numeric ?br \<or> \<not> numeric ?mi \<or> Atoi ?br = None \<or> Atoi ?mi = None"
    using that Atoi_numeric [of ?br] Atoi_numeric [of ?mi]
      Atoi_absent [of "resp_Header resp" "''icy-br''"]
      Atoi_absent [of "resp_Header resp" "''icy-metaint''"]
    by (elim disjE) simp_all
  show ?thesis
  proof (intro conjI impI allI)
    assume "absent (resp_Header resp) ''icy-br'' \<or> absent (resp_Header resp) ''icy-metaint'' \<or>
        \<not> numeric ?br \<or> \<not> numeric ?mi \<or> Atoi ?br = None \<or> Atoi ?mi = None"
    from fail [OF none [OF this]]
    show "\<exists>e. (Open NewRequest Do url :: ('e open_error + ('c, 'm, 'r) Stream) outcome) =
      Return (Inl e)" .
  next
    fix b mi
    assume "Atoi ?br = Some b \<and> Atoi ?mi = Some mi"
    then show "\<exists>s. (Open NewRequest Do url :: ('e open_error + ('c, 'm, 'r) Stream) outcome) =
      Return (Inr s) \<and> Bitrate s = b \<and> metaint s = mi"
      by (simp add: run)
  qed
qed

theorem Open_numeric_headers_witness:
  "parse_NewRequest ''GET'' ''http://radio/'' =
     Inr \<lparr>req_Method = ''GET'', req_URL = ''http://radio/'', req_Header = []\<rparr> \<and>
   server_Do [(''Icy-Br'', [''128'']), (''Icy-Metaint'', [''16000'']), (''Icy-Name'', [''Jazz FM''])] []
     (icy_request \<lparr>req_Method = ''GET'', req_URL = ''http://radio/'', req_Header = []\<rparr>) =
     Inr \<lparr>resp_Header = [(''Icy-Br'', [''128'']), (''Icy-Metaint'', [''16000'']),
                           (''Icy-Name'', [''Jazz FM''])], Body = []\<rparr> \<and>
   Atoi (Header_Get [(''Icy-Br'', [''128'']), (''Icy-Metaint'', [''16000'']),
                     (''Icy-Name'', [''Jazz FM''])] ''icy-br'') = Some 128 \<and>
   Atoi (Header_Get [(''Icy-Br'', [''128'']), (''Icy-Metaint'', [''16000'']),
                     (''Icy-Name'', [''Jazz FM''])] ''icy-metaint'') = Some 16000 \<and>
   (Open parse_NewRequest
      (server_Do [(''Icy-Br'', [''128'']), (''Icy-Metaint'', [''16000'']),
                  (''Icy-Name'', [''Jazz FM''])] []) ''http://radio/''
      :: (string open_error + (string, byte list, (byte list \<times> string option) list) Stream) outcome) =
     Return (Inr \<lparr>Name = ''Jazz FM'', Genre = [], Description = [], URL = [], Bitrate = 128,
                  MetadataCallbackFunc = None, metaint = 16000, metadata = None, pos = 0,
                  rc = []\<rparr>) \<and>
   server_Do [(''Icy-Br'', [''128'']), (''Icy-Name'', [''Jazz FM''])] []
     (icy_request \<lparr>req_Method = ''GET'', req_URL = ''http://radio/'', req_Header = []\<rparr>) =
     Inr \<lparr>resp_Header = [(''Icy-Br'', [''128'']), (''Icy-Name'', [''Jazz FM''])], Body = []\<rparr> \<and>
   absent [(''Icy-Br'', [''128'']), (''Icy-Name'', [''Jazz FM''])] ''icy-metaint'' \<and>
   (Open parse_NewRequest
      (server_Do [(''Icy-Br'', [''128'']), (''Icy-Name'', [''Jazz FM''])] []) ''http://radio/''
      :: (string open_error + (string, byte list, (byte list \<times> string option) list) Stream) outcome) =
     Return (Inl CannotParseMetaint)"
proof -
  let ?req = "\<lparr>req_Method = ''GET'', req_URL = ''http://radio/'', req_Header = []\<rparr>"
  let ?h = "[(''Icy-Br'', [''128'']), (''Icy-Metaint'', [''16000'']), (''Icy-Name'', [''Jazz FM''])]"
  let ?g = "[(''Icy-Br'', [''128'']), (''Icy-Name'', [''Jazz FM''])]"
  have req: "parse_NewRequest ''GET'' ''http://radio/'' = Inr ?req"
    by (simp add: parse_NewRequest_def)
  have resp: "server_Do ?h [] (icy_request ?req) = Inr \<lparr>resp_Header = ?h, Body = []\<rparr>"
    by (simp add: server_Do_def)
  have vals: "\<not> list_ex (\<lambda>(k, v). v = []) (resp_Header \<lparr>resp_Header = ?h, Body = []\<rparr>)"
    by simp
  have br: "Atoi (Header_Get ?h ''icy-br'') = Some 128"
    and mi: "Atoi (Header_Get ?h ''icy-metaint'') = Some 16000"
    by code_simp+
  have run: "(Open parse_NewRequest (server_Do ?h []) ''http://radio/''
      :: (string open_error + (string, byte list, (byte list \<times> string option) list) Stream) outcome) =
     Return (Inr \<lparr>Name = ''Jazz FM'', Genre = [], Description = [], URL = [], Bitrate = 128,
                  MetadataCallbackFunc = None, metaint = 16000, metadata = None, pos = 0,
                  rc = []\<rparr>)"
    by code_simp
  have resp': "server_Do ?g [] (icy_request ?req) = Inr \<lparr>resp_Header = ?g, Body = []\<rparr>"
    by (simp add: server_Do_def)
  have vals': "\<not> list_ex (\<lambda>(k, v). v = []) (resp_Header \<lparr>resp_Header = ?g, Body = []\<rparr>)"
    by simp
  have ab: "absent ?g ''icy-metaint''"
    by code_simp
  have run': "(Open parse_NewRequest (server_Do ?g []) ''http://radio/''
      :: (string open_error + (string, byte list, (byte list \<times> string option) list) Stream) outcome) =
     Return (Inl CannotParseMetaint)"
    by code_simp
  note Open_numeric_headers [where NewRequest = parse_NewRequest and Do = "server_Do ?h []",
      OF req resp vals]
    Open_numeric_headers [where NewRequest = parse_NewRequest and Do = "server_Do ?g []",
      OF req resp' vals']
  then show ?thesis using req resp br mi run resp' ab run' by simp
qed

section \<open>Open: the metadata interval\<close>

text \<open>
  C9. The claim is that the \<open>metaint\<close> of a stream \<^verbatim>\<open>Open\<close> returns is positive. \<^verbatim>\<open>Open\<close>
  takes whatever integer \<^verbatim>\<open>Atoi\<close> parses: a server that declares the interval 0 gets
  a stream with \<open>metaint = 0\<close>.
\<close>

theorem Open_metaint_zero:
  "(Open parse_NewRequest (server_Do [(''Icy-Br'', [''128'']), (''Icy-Metaint'', [''0''])] [])
      ''http://radio/''
      :: (string open_error + (string, byte list, (byte list \<times> string option) list) Stream) outcome) =
     Return (Inr \<lparr>Name = [], Genre = [], Description = [], URL = [], Bitrate = 128,
                  MetadataCallbackFunc = None, metaint = 0, metadata = None, pos = 0,
                  rc = []\<rparr>)"
  by code_simp

text \<open>
  C9, as the code has it. The \<open>metaint\<close> of a stream \<^verbatim>\<open>Open\<close> returns is the integer that
  \<^verbatim>\<open>Atoi\<close> parses from the header \<^verbatim>\<open>icy-metaint\<close> of the response, of either sign or
  zero. \<^verbatim>\<open>Read\<close>, when it returns, and \<^verbatim>\<open>Close\<close> leave the \<open>metaint\<close> of every stream
  as it is.
\<close>

theorem Open_metaint_parsed_and_kept:
  fixes s :: "('c, 'm, 'r) Stream"
    and rc_Read :: "'r \<Rightarrow> byte list \<Rightarrow> int \<times> 'e option \<times> byte list \<times> 'r"
    and rc_Close :: "'r \<Rightarrow> 'e option \<times> 'r"
  assumes "Open NewRequest Do url = Return (Inr s)"
    and "Read NewMetadata Equals rc_Read t calls p = Return (k, e, out, t', calls')"
  shows "(\<exists>req resp. Do req = Inr resp \<and>
            Atoi (Header_Get (resp_Header resp) ''icy-metaint'') = Some (metaint s)) \<and>
         metaint t' = metaint t \<and>
         metaint (snd (Close rc_Close t)) = metaint t"
proof -
  from Open_stream [OF assms(1)] have "\<exists>req resp. Do req = Inr resp \<and>
      Atoi (Header_Get (resp_Header resp) ''icy-metaint'') = Some (metaint s)"
    by blast
  moreover have "metaint t' = metaint t"
    using assms(2) by (rule Read_keeps_metaint)
  moreover have "metaint (snd (Close rc_Close t)) = metaint t"
    by (simp add: Close_def split: prod.split)
  ultimately show ?thesis by simp
qed

theorem Open_metaint_parsed_and_kept_witness:
  "(Open parse_NewRequest
      (server_Do [(''Icy-Br'', [''128'']), (''Icy-Metaint'', [''10''])]
                 [(replicate 10 65 @ [0, 66], Some ''EOF'')])
      ''http://radio/''
      :: (string open_error + (string, byte list, (byte list \<times> string option) list) Stream) outcome) =
     Return (Inr \<lparr>Name = [], Genre = [], Description = [], URL = [], Bitrate = 128,
                  MetadataCallbackFunc = None, metaint = 10, metadata = None, pos = 0,
                  rc = [(replicate 10 65 @ [0, 66], Some ''EOF'')]\<rparr>) \<and>
   Atoi (Header_Get [(''Icy-Br'', [''128'']), (''Icy-Metaint'', [''10''])] ''icy-metaint'') =
     Some 10 \<and>
   Read text_NewMetadata text_Equals scripted_Read
     \<lparr>Name = [], Genre = [], Description = [], URL = [], Bitrate = 128,
      MetadataCallbackFunc = None :: string option, metaint = 10, metadata = None, pos = 0,
      rc = [(replicate 10 65 @ [0, 66], Some ''EOF'')]\<rparr> [] (replicate 12 0, []) =
     Return (11, Some ''EOF'', replicate 10 65 @ [66, 66],
             \<lparr>Name = [], Genre = [], Description = [], URL = [], Bitrate = 128,
              MetadataCallbackFunc = None, metaint = 10, metadata = None, pos = 1, rc = []\<rparr>,
             [])"
proof -
  let ?h = "[(''Icy-Br'', [''128'']), (''Icy-Metaint'', [''10''])]"
  let ?body = "[(replicate 10 65 @ [0, 66 :: byte], Some ''EOF'')]"
  let ?s = "\<lparr>Name = [], Genre = [], Description = [], URL = [], Bitrate = 128,
      MetadataCallbackFunc = None :: string option, metaint = 10,
      metadata = None :: byte list option, pos = 0, rc = ?body\<rparr>"
  have opened: "(Open parse_NewRequest (server_Do ?h ?body) ''http://radio/''
      :: (string open_error + (string, byte list, (byte list \<times> string option) list) Stream) outcome) =
     Return (Inr ?s)"
    by code_simp
  have mi: "Atoi (Header_Get ?h ''icy-metaint'') = Some 10"
    by code_simp
  have run: "Read text_NewMetadata text_Equals scripted_Read ?s [] (replicate 12 0, []) =
     Return (11, Some ''EOF'', replicate 10 65 @ [66, 66],
             \<lparr>Name = [], Genre = [], Description = [], URL = [], Bitrate = 128,
              MetadataCallbackFunc = None, metaint = 10, metadata = None, pos = 1, rc = []\<rparr>,
             [])"
    by code_simp
  note Open_metaint_parsed_and_kept [where NewRequest = parse_NewRequest
      and Do = "server_Do ?h ?body" and rc_Read = scripted_Read and rc_Close = "\<lambda>r. (None, r)",
      OF opened run]
  then show ?thesis using opened mi run by simp
qed

section \<open>Open: a URL the request constructor rejects\<close>

text \<open>
  C10. The claim is that \<^verbatim>\<open>Open\<close> returns the error of the request constructor for a
  URL it rejects. \<^verbatim>\<open>Open\<close> assigns that error and never reads it: the request is nil,
  and the next statement, \<^verbatim>\<open>req.Header.Add\<close>, dereferences it. The call panics.
\<close>

theorem Open_rejected_url_panics:
  fixes NewRequest :: "string \<Rightarrow> string \<Rightarrow> 'e + request"
    and Do :: "request \<Rightarrow> 'e + 'r response"
  assumes "NewRequest ''GET'' url = Inl err"
  shows "(Open NewRequest Do url :: ('e open_error + ('c, 'm, 'r) Stream) outcome) = Panic"
  using assms by (simp add: Open_def)

theorem Open_rejected_url_panics_witness:
  "parse_NewRequest ''GET'' '':'' = Inl ''missing protocol scheme'' \<and>
   (Open parse_NewRequest
      (server_Do [(''Icy-Br'', [''128'']), (''Icy-Metaint'', [''16000''])] []) '':''
      :: (string open_error + (string, byte list, (byte list \<times> string option) list) Stream) outcome) =
     Panic"
proof -
  have rej: "parse_NewRequest ''GET'' '':'' = Inl ''missing protocol scheme''"
    by (simp add: parse_NewRequest_def)
  from Open_rejected_url_panics [where NewRequest = parse_NewRequest, OF rej]
  show ?thesis using rej by simp
qed

end
